theory Spec2Isabelle
  imports Main "HOL-Library.Word"
begin

section \<open>Memory, pointers and outcomes\<close>

text \<open>
  The header \<^verbatim>\<open>secure_string_header_only.h\<close> wraps the C library's memory and string
  primitives in bounds checks. The embedding makes the memory explicit: it is a finite
  list of bytes, a pointer is either \<^verbatim>\<open>NULL\<close> or the index of a byte, and every
  operation takes the memory and returns what happened to it.

  A value of type \<^verbatim>\<open>size_t\<close> is a word of some width \<open>'w\<close>; comparison on words is
  unsigned and \<open>+\<close>, \<open>-\<close> wrap around modulo \<open>2 ^ LENGTH('w)\<close>, as in C.
\<close>

type_synonym byte = "8 word"
type_synonym mem = "byte list"

datatype ptr = Null | Addr nat

text \<open>Pointer arithmetic \<^verbatim>\<open>(char*)p + n\<close>. Arithmetic on \<^verbatim>\<open>NULL\<close> has no meaning in C;
  the model keeps the pointer \<^verbatim>\<open>NULL\<close>, so that any access through it is undefined.\<close>

fun ptr_add :: "ptr \<Rightarrow> nat \<Rightarrow> ptr" where
  "ptr_add Null n = Null"
| "ptr_add (Addr a) n = Addr (a + n)"

text \<open>What the violation handlers report: the kind of the message, the name of the failing
  operation (\<^verbatim>\<open>__func__\<close>) and, for the size-annotated message, the two sizes in the order
  of the handler's parameters (\<^verbatim>\<open>destination_size\<close>, \<^verbatim>\<open>writing_size\<close>); \<open>'s\<close> is the
  type of \<^verbatim>\<open>size_t\<close>.\<close>

datatype 's violation =
    BufferOverflowWithSize string 's 's
  | BufferOverflow string
  | BufferOobRead string
  | IntegerOverflow string
  | NullPointer string

text \<open>A call either returns a value and leaves a memory, or ends in \<^verbatim>\<open>abort()\<close> after a
  violation handler (the memory is the one at the moment of the abort), or has no defined
  behaviour in C (an access outside the memory, through \<^verbatim>\<open>NULL\<close>, or a \<^verbatim>\<open>memcpy\<close> between
  overlapping ranges).\<close>

datatype ('r, 's) outcome =
    Return 'r mem
  | Abort "'s violation" mem
  | Undefined

section \<open>The violation handlers\<close>

text \<open>Each handler prints its fixed prefix, the operation's name and a newline through
  \<^verbatim>\<open>error_with_prefix_msg\<close>, which calls \<^verbatim>\<open>abort()\<close>: none returns. The model keeps what
  the message is built from.\<close>

definition buffer_overflow_error_with_size :: "string \<Rightarrow> 's \<Rightarrow> 's \<Rightarrow> 's violation" where
  "buffer_overflow_error_with_size api_name destination_size writing_size =
     BufferOverflowWithSize api_name destination_size writing_size"

definition buffer_overflow_error :: "string \<Rightarrow> 's violation" where
  "buffer_overflow_error api_name = BufferOverflow api_name"

definition buffer_oob_read_error :: "string \<Rightarrow> 's violation" where
  "buffer_oob_read_error api_name = BufferOobRead api_name"

definition integer_overflow_error :: "string \<Rightarrow> 's violation" where
  "integer_overflow_error api_name = IntegerOverflow api_name"

definition null_pointer_error :: "string \<Rightarrow> 's violation" where
  "null_pointer_error api_name = NullPointer api_name"

section \<open>The error codes of the try family\<close>

definition ERR_POTENTIAL_BUFFER_OVERFLOW :: int where
  "ERR_POTENTIAL_BUFFER_OVERFLOW = 34"

definition ERR_POTENTIAL_INTEGER_OVERFLOW :: int where
  "ERR_POTENTIAL_INTEGER_OVERFLOW = 75"

section \<open>The C library primitives\<close>

text \<open>The primitives the header delegates to are not part of it; they are modelled after
  their contracts in ISO C (7.24). \<^verbatim>\<open>memcpy(d, s, n)\<close> needs both ranges inside the memory
  and not overlapping; it copies \<open>n\<close> bytes and returns \<open>d\<close>.\<close>

definition memcpy :: "mem \<Rightarrow> ptr \<Rightarrow> ptr \<Rightarrow> nat \<Rightarrow> (ptr \<times> mem) option" where
  "memcpy m d s n =
     (case (d, s) of
        (Addr a, Addr b) \<Rightarrow>
          if a + n \<le> length m \<and> b + n \<le> length m \<and> (a + n \<le> b \<or> b + n \<le> a)
          then Some (d, take a m @ take n (drop b m) @ drop (a + n) m)
          else None
      | _ \<Rightarrow> None)"

text \<open>\<^verbatim>\<open>memset(d, ch, n)\<close> converts \<open>ch\<close> to \<^verbatim>\<open>unsigned char\<close> and stores it \<open>n\<close> times.\<close>

definition memset :: "mem \<Rightarrow> ptr \<Rightarrow> int \<Rightarrow> nat \<Rightarrow> (ptr \<times> mem) option" where
  "memset m d ch n =
     (case d of
        Addr a \<Rightarrow>
          if a + n \<le> length m
          then Some (d, take a m @ replicate n (word_of_int ch) @ drop (a + n) m)
          else None
      | Null \<Rightarrow> None)"

text \<open>The assignment \<^verbatim>\<open>*p = b\<close>.\<close>

definition store_byte :: "mem \<Rightarrow> ptr \<Rightarrow> byte \<Rightarrow> mem option" where
  "store_byte m p b =
     (case p of
        Addr a \<Rightarrow> if a < length m then Some (m[a := b]) else None
      | Null \<Rightarrow> None)"

text \<open>\<^verbatim>\<open>strlen\<close> scans for the first zero byte. Running off the end of the memory is
  undefined, and so is a length that \<^verbatim>\<open>size_t\<close> cannot hold (no such string exists on
  the machine).\<close>

fun find_nul :: "byte list \<Rightarrow> nat option" where
  "find_nul [] = None"
| "find_nul (b # bs) = (if b = 0 then Some 0 else map_option Suc (find_nul bs))"

definition strlen :: "mem \<Rightarrow> ptr \<Rightarrow> 'w::len word option" where
  "strlen m p =
     (case p of
        Addr a \<Rightarrow>
          (case find_nul (drop a m) of
             Some n \<Rightarrow> if n < 2 ^ LENGTH('w) then Some (of_nat n) else None
           | None \<Rightarrow> None)
      | Null \<Rightarrow> None)"

text \<open>\<^verbatim>\<open>memcmp\<close> compares bytes as \<^verbatim>\<open>unsigned char\<close>. ISO C fixes only the sign of a
  non-zero result; the model returns the difference of the first pair of bytes that
  differ, and the theorems below speak of the sign only.\<close>

fun memcmp_bytes :: "byte list \<Rightarrow> byte list \<Rightarrow> int" where
  "memcmp_bytes (x # xs) (y # ys) =
     (if x = y then memcmp_bytes xs ys else int (unat x) - int (unat y))"
| "memcmp_bytes _ _ = 0"

definition memcmp :: "mem \<Rightarrow> ptr \<Rightarrow> ptr \<Rightarrow> nat \<Rightarrow> int option" where
  "memcmp m p1 p2 n =
     (case (p1, p2) of
        (Addr a, Addr b) \<Rightarrow>
          if a + n \<le> length m \<and> b + n \<le> length m
          then Some (memcmp_bytes (take n (drop a m)) (take n (drop b m)))
          else None
      | _ \<Rightarrow> None)"

text \<open>\<^verbatim>\<open>strncmp\<close> compares at most \<open>n\<close> characters and stops after a terminator; a read
  past the end of the memory is undefined.\<close>

fun strncmp_bytes :: "byte list \<Rightarrow> byte list \<Rightarrow> nat \<Rightarrow> int option" where
  "strncmp_bytes xs ys 0 = Some 0"
| "strncmp_bytes (x # xs) (y # ys) (Suc n) =
     (if x \<noteq> y then Some (int (unat x) - int (unat y))
      else if x = 0 then Some 0
      else strncmp_bytes xs ys n)"
| "strncmp_bytes _ _ (Suc n) = None"

definition strncmp :: "mem \<Rightarrow> ptr \<Rightarrow> ptr \<Rightarrow> nat \<Rightarrow> int option" where
  "strncmp m p1 p2 n =
     (case (p1, p2) of
        (Addr a, Addr b) \<Rightarrow> strncmp_bytes (drop a m) (drop b m) n
      | _ \<Rightarrow> None)"

section \<open>The guarded operations\<close>

subsection \<open>Copy\<close>

definition checked_memcpy ::
  "mem \<Rightarrow> ptr \<Rightarrow> 'w::len word \<Rightarrow> ptr \<Rightarrow> 'w word \<Rightarrow> (ptr, 'w word) outcome" where
  "checked_memcpy m destination destination_size source count =
     (if destination_size < count
      then Abort (buffer_overflow_error_with_size ''checked_memcpy'' destination_size count) m
      else if source = Null \<or> destination = Null
      then Abort (null_pointer_error ''checked_memcpy'') m
      else (case memcpy m destination source (unat count) of
              None \<Rightarrow> Undefined
            | Some (r, m') \<Rightarrow> Return r m'))"

definition checked_memcpy_offset ::
  "mem \<Rightarrow> ptr \<Rightarrow> 'w::len word \<Rightarrow> 'w word \<Rightarrow> ptr \<Rightarrow> 'w word \<Rightarrow> (ptr, 'w word) outcome" where
  "checked_memcpy_offset m destination destination_size offset source count =
     (if destination_size < count \<or> offset \<ge> destination_size
      then Abort (buffer_overflow_error_with_size ''checked_memcpy_offset''
                    (destination_size - offset) count) m
      else (case memcpy m (ptr_add destination (unat offset)) source (unat count) of
              None \<Rightarrow> Undefined
            | Some (r, m') \<Rightarrow> Return destination m'))"

definition checked_memcpy_robust ::
  "mem \<Rightarrow> ptr \<Rightarrow> 'w::len word \<Rightarrow> ptr \<Rightarrow> 'w word \<Rightarrow> 'w word \<Rightarrow> (ptr, 'w word) outcome" where
  "checked_memcpy_robust m destination destination_size source src_size count =
     (if destination_size < count \<or> src_size < count
      then Abort (buffer_overflow_error ''checked_memcpy_robust'') m
      else (case memcpy m destination source (unat count) of
              None \<Rightarrow> Undefined
            | Some (r, m') \<Rightarrow> Return r m'))"

definition try_checked_memcpy ::
  "mem \<Rightarrow> ptr \<Rightarrow> 'w::len word \<Rightarrow> ptr \<Rightarrow> 'w word \<Rightarrow> (int, 'w word) outcome" where
  "try_checked_memcpy m destination destination_size source count =
     (if destination_size < count
      then Return ERR_POTENTIAL_BUFFER_OVERFLOW m
      else (case memcpy m destination source (unat count) of
              None \<Rightarrow> Undefined
            | Some (r, m') \<Rightarrow> Return 0 m'))"

definition try_checked_memcpy_robust ::
  "mem \<Rightarrow> ptr \<Rightarrow> 'w::len word \<Rightarrow> ptr \<Rightarrow> 'w word \<Rightarrow> 'w word \<Rightarrow> (int, 'w word) outcome" where
  "try_checked_memcpy_robust m destination destination_size source src_size count =
     (if destination_size < count \<or> src_size < count
      then Return ERR_POTENTIAL_BUFFER_OVERFLOW m
      else (case memcpy m destination source (unat count) of
              None \<Rightarrow> Undefined
            | Some (r, m') \<Rightarrow> Return 0 m'))"

subsection \<open>Concatenate\<close>

text \<open>The tail both variants share once the checks have passed: the \<^verbatim>\<open>memcpy\<close> to the old
  terminator's position and the store of the new terminator.\<close>

definition append_at :: "mem \<Rightarrow> ptr \<Rightarrow> 'w::len word \<Rightarrow> ptr \<Rightarrow> 'w word \<Rightarrow> mem option" where
  "append_at m destination dest_str_len source src_str_len =
     (case memcpy m (ptr_add destination (unat dest_str_len)) source (unat src_str_len) of
        None \<Rightarrow> None
      | Some (r, m1) \<Rightarrow>
          store_byte m1 (ptr_add (ptr_add destination (unat dest_str_len)) (unat src_str_len)) 0)"

definition checked_strcat ::
  "mem \<Rightarrow> ptr \<Rightarrow> 'w::len word \<Rightarrow> ptr \<Rightarrow> (ptr, 'w word) outcome" where
  "checked_strcat m destination destination_size source =
     (case strlen m destination of
        None \<Rightarrow> Undefined
      | Some dest_str_len \<Rightarrow>
     (case strlen m source of
        None \<Rightarrow> Undefined
      | Some src_str_len \<Rightarrow>
     (let tot_str_len = dest_str_len + src_str_len in
      if destination_size = 0
      then Abort (buffer_overflow_error_with_size ''checked_strcat'' destination_size tot_str_len) m
      else if dest_str_len + src_str_len < dest_str_len
      then Abort (integer_overflow_error ''checked_strcat'') m
      else if destination_size - 1 < tot_str_len
      then Abort (buffer_overflow_error_with_size ''checked_strcat''
                    (destination_size - 1) tot_str_len) m
      else (case append_at m destination dest_str_len source src_str_len of
              None \<Rightarrow> Undefined
            | Some m' \<Rightarrow> Return destination m'))))"

definition try_checked_strcat ::
  "mem \<Rightarrow> ptr \<Rightarrow> 'w::len word \<Rightarrow> ptr \<Rightarrow> (int, 'w word) outcome" where
  "try_checked_strcat m destination destination_size source =
     (if destination_size = 0
      then Return ERR_POTENTIAL_BUFFER_OVERFLOW m
      else
     (case strlen m destination of
        None \<Rightarrow> Undefined
      | Some dest_str_len \<Rightarrow>
     (case strlen m source of
        None \<Rightarrow> Undefined
      | Some (src_str_len :: 'w word) \<Rightarrow>
      if dest_str_len + src_str_len < dest_str_len
      then Return ERR_POTENTIAL_INTEGER_OVERFLOW m
      else if destination_size - 1 < dest_str_len + src_str_len
      then Return ERR_POTENTIAL_BUFFER_OVERFLOW m
      else (case append_at m destination dest_str_len source src_str_len of
              None \<Rightarrow> Undefined
            | Some m' \<Rightarrow> Return 0 m'))))"

subsection \<open>Compare\<close>

definition checked_memcmp ::
  "mem \<Rightarrow> ptr \<Rightarrow> 'w::len word \<Rightarrow> ptr \<Rightarrow> 'w word \<Rightarrow> 'w word \<Rightarrow> (int, 'w word) outcome" where
  "checked_memcmp m ptr1 ptr1_size ptr2 ptr2_size num =
     (if num > ptr1_size \<or> num > ptr2_size
      then Abort (buffer_oob_read_error ''checked_memcmp'') m
      else (case memcmp m ptr1 ptr2 (unat num) of
              None \<Rightarrow> Undefined
            | Some r \<Rightarrow> Return r m))"

definition checked_strncmp ::
  "mem \<Rightarrow> ptr \<Rightarrow> 'w::len word \<Rightarrow> ptr \<Rightarrow> 'w word \<Rightarrow> 'w word \<Rightarrow> (int, 'w word) outcome" where
  "checked_strncmp m str1 str1_size str2 str2_size count =
     (if str1_size < count \<or> str2_size < count
      then Abort (buffer_oob_read_error ''checked_strncmp'') m
      else (case strncmp m str1 str2 (unat count) of
              None \<Rightarrow> Undefined
            | Some r \<Rightarrow> Return r m))"

subsection \<open>Fill\<close>

definition checked_memset ::
  "mem \<Rightarrow> ptr \<Rightarrow> 'w::len word \<Rightarrow> int \<Rightarrow> 'w word \<Rightarrow> (ptr, 'w word) outcome" where
  "checked_memset m destination destination_size ch count =
     (if count > destination_size
      then Abort (buffer_overflow_error ''checked_memset'') m
      else (case memset m destination ch (unat count) of
              None \<Rightarrow> Undefined
            | Some (r, m') \<Rightarrow> Return r m'))"

section \<open>The bytes a string comparison looks at\<close>

text \<open>\<^verbatim>\<open>strncmp\<close> does not look past a terminator: of its first operand it compares the
  bytes up to and including the first zero byte (all of them when there is none), and at
  most \<open>n\<close> of these.\<close>

fun upto_nul :: "byte list \<Rightarrow> byte list" where
  "upto_nul [] = []"
| "upto_nul (x # xs) = (if x = 0 then [x] else x # upto_nul xs)"

section \<open>Rejected requests\<close>

text \<open>
  C2. When \<open>count\<close> exceeds the destination's capacity, \<open>checked_memcpy\<close> ends in the
  size-annotated overflow handler with the memory as it was at the call (nothing has been
  written), and \<open>try_checked_memcpy\<close> returns the overflow code with the memory unchanged;
  \<open>try_checked_memcpy_robust\<close> does the same when either capacity is below \<open>count\<close>.
\<close>

theorem copy_rejected:
  fixes destination_size count src_size :: "'w::len word"
  shows "(destination_size < count \<longrightarrow>
            checked_memcpy m destination destination_size source count
              = Abort (buffer_overflow_error_with_size ''checked_memcpy'' destination_size count) m
          \<and> try_checked_memcpy m destination destination_size source count
              = Return ERR_POTENTIAL_BUFFER_OVERFLOW m)
       \<and> (destination_size < count \<or> src_size < count \<longrightarrow>
            try_checked_memcpy_robust m destination destination_size source src_size count
              = Return ERR_POTENTIAL_BUFFER_OVERFLOW m)"
  by (simp add: checked_memcpy_def try_checked_memcpy_def try_checked_memcpy_robust_def)

theorem copy_rejected_witness:
  "(8 :: 64 word) < 10
   \<and> checked_memcpy (replicate 20 7) (Addr 0) (8 :: 64 word) (Addr 10) 10
       = Abort (BufferOverflowWithSize ''checked_memcpy'' 8 10) (replicate 20 7)
   \<and> try_checked_memcpy (replicate 20 7) (Addr 0) (8 :: 64 word) (Addr 10) 10
       = Return 34 (replicate 20 7)
   \<and> try_checked_memcpy_robust (replicate 20 7) (Addr 0) (16 :: 64 word) (Addr 10) 8 10
       = Return 34 (replicate 20 7)"
  using copy_rejected [of "8 :: 64 word" 10 "replicate 20 7" "Addr 0" "Addr 10" 8]
    copy_rejected [of "16 :: 64 word" 10 "replicate 20 7" "Addr 0" "Addr 10" 8]
  by (simp add: buffer_overflow_error_with_size_def ERR_POTENTIAL_BUFFER_OVERFLOW_def)

section \<open>Copies within capacity\<close>

text \<open>The memory after a \<^verbatim>\<open>memcpy\<close>: the bytes before the destination range, the copied
  bytes, and the bytes after it.\<close>

lemma memcpy_Some:
  assumes "a + n \<le> length m" "b + n \<le> length m" "a + n \<le> b \<or> b + n \<le> a"
  shows "memcpy m (Addr a) (Addr b) n = Some (Addr a, take a m @ take n (drop b m) @ drop (a + n) m)"
  using assms by (simp add: memcpy_def)

lemma splice_length:
  "a + n \<le> length m \<Longrightarrow> length ys = n \<Longrightarrow> length (take a m @ ys @ drop (a + n) m) = length m"
  by simp

lemma splice_inside:
  "a + n \<le> length m \<Longrightarrow> length ys = n \<Longrightarrow> i < n \<Longrightarrow> (take a m @ ys @ drop (a + n) m) ! (a + i) = ys ! i"
  by (simp add: nth_append)

lemma splice_outside:
  "a + n \<le> length m \<Longrightarrow> length ys = n \<Longrightarrow> i < length m \<Longrightarrow> i < a \<or> a + n \<le> i \<Longrightarrow>
     (take a m @ ys @ drop (a + n) m) ! i = m ! i"
  by (auto simp add: nth_append)

text \<open>
  C1 (as amended). For every copy variant, when \<open>count\<close> is at most the destination's
  capacity, \<open>count\<close> bytes are reachable through both (non-null) pointers and the two
  ranges do not overlap -- and, for the two robust variants, \<open>count\<close> is also at most the
  source's capacity -- the call returns the destination address (abort family) or \<open>0\<close>
  (try family), the first \<open>count\<close> bytes at the destination are the first \<open>count\<close>
  bytes of the source, and every byte outside that range is unchanged.
\<close>

theorem copy_within_capacity:
  fixes destination_size count src_size :: "'w::len word"
  assumes "count \<le> destination_size"
    and "a + unat count \<le> length m" and "b + unat count \<le> length m"
    and "a + unat count \<le> b \<or> b + unat count \<le> a"
  shows "\<exists>m'. checked_memcpy m (Addr a) destination_size (Addr b) count = Return (Addr a) m'
          \<and> try_checked_memcpy m (Addr a) destination_size (Addr b) count = Return 0 m'
          \<and> (count \<le> src_size \<longrightarrow>
                checked_memcpy_robust m (Addr a) destination_size (Addr b) src_size count = Return (Addr a) m'
              \<and> try_checked_memcpy_robust m (Addr a) destination_size (Addr b) src_size count = Return 0 m')
          \<and> length m' = length m
          \<and> (\<forall>i. i < unat count \<longrightarrow> m' ! (a + i) = m ! (b + i))
          \<and> (\<forall>i. i < length m \<and> (i < a \<or> a + unat count \<le> i) \<longrightarrow> m' ! i = m ! i)"
proof -
  let ?n = "unat count"
  let ?ys = "take ?n (drop b m)"
  let ?m' = "take a m @ ?ys @ drop (a + ?n) m"
  have len: "length ?ys = ?n" using assms(3) by simp
  have cp: "memcpy m (Addr a) (Addr b) ?n = Some (Addr a, ?m')"
    using assms(2-4) by (rule memcpy_Some)
  have nlt: "\<not> destination_size < count" using assms(1) by simp
  have 1: "checked_memcpy m (Addr a) destination_size (Addr b) count = Return (Addr a) ?m'"
    by (simp add: checked_memcpy_def nlt cp)
  have 2: "try_checked_memcpy m (Addr a) destination_size (Addr b) count = Return 0 ?m'"
    by (simp add: try_checked_memcpy_def nlt cp)
  have 3: "checked_memcpy_robust m (Addr a) destination_size (Addr b) src_size count = Return (Addr a) ?m'"
    if "count \<le> src_size"
    using that by (simp add: checked_memcpy_robust_def nlt cp not_less [symmetric])
  have 4: "try_checked_memcpy_robust m (Addr a) destination_size (Addr b) src_size count = Return 0 ?m'"
    if "count \<le> src_size"
    using that by (simp add: try_checked_memcpy_robust_def nlt cp not_less [symmetric])
  have 5: "length ?m' = length m"
    using assms(2) len by (rule splice_length)
  have 6: "?m' ! (a + i) = m ! (b + i)" if "i < ?n" for i
  proof -
    have "?m' ! (a + i) = ?ys ! i" using assms(2) len that by (rule splice_inside)
    also have "\<dots> = m ! (b + i)" using that assms(3) by simp
    finally show ?thesis .
  qed
  have 7: "?m' ! i = m ! i" if "i < length m" "i < a \<or> a + ?n \<le> i" for i
    using assms(2) len that by (rule splice_outside)
  show ?thesis
    using 1 2 3 4 5 6 7 by blast
qed

theorem copy_within_capacity_witness:
  "(3 :: 64 word) \<le> 4 \<and> (3 :: 64 word) \<le> 3
   \<and> (\<exists>m'. checked_memcpy [1, 2, 3, 4, 9, 9, 9, 9] (Addr 4) (4 :: 64 word) (Addr 0) 3 = Return (Addr 4) m'
          \<and> try_checked_memcpy [1, 2, 3, 4, 9, 9, 9, 9] (Addr 4) (4 :: 64 word) (Addr 0) 3 = Return 0 m'
          \<and> checked_memcpy_robust [1, 2, 3, 4, 9, 9, 9, 9] (Addr 4) (4 :: 64 word) (Addr 0) 3 3 = Return (Addr 4) m'
          \<and> try_checked_memcpy_robust [1, 2, 3, 4, 9, 9, 9, 9] (Addr 4) (4 :: 64 word) (Addr 0) 3 3 = Return 0 m'
          \<and> m' = [1, 2, 3, 4, 1, 2, 3, 9])"
proof -
  let ?m = "[1, 2, 3, 4, 9, 9, 9, 9] :: mem"
  have h1: "(3 :: 64 word) \<le> 4" by simp
  have h2: "4 + unat (3 :: 64 word) \<le> length ?m" by simp
  have h3: "0 + unat (3 :: 64 word) \<le> length ?m" by simp
  have h4: "4 + unat (3 :: 64 word) \<le> 0 \<or> 0 + unat (3 :: 64 word) \<le> 4" by simp
  from copy_within_capacity [OF h1 h2 h3 h4, of 3] obtain m' where
    r: "checked_memcpy ?m (Addr 4) (4 :: 64 word) (Addr 0) 3 = Return (Addr 4) m'"
       "try_checked_memcpy ?m (Addr 4) (4 :: 64 word) (Addr 0) 3 = Return 0 m'"
       "checked_memcpy_robust ?m (Addr 4) (4 :: 64 word) (Addr 0) 3 3 = Return (Addr 4) m'"
       "try_checked_memcpy_robust ?m (Addr 4) (4 :: 64 word) (Addr 0) 3 3 = Return 0 m'"
    by auto
  from r(2) have "m' = [1, 2, 3, 4, 1, 2, 3, 9]"
    by (simp add: try_checked_memcpy_def memcpy_def)
  with r h1 show ?thesis by simp
qed

text \<open>
  C1 as stated ranges over all inputs with \<open>count\<close> within the destination's capacity.
  The robust variants also check the source's capacity, and \<open>checked_memcpy\<close> checks
  both pointers: with a source capacity of 1 and a count of 2 the robust variants raise the
  overflow violation and return the overflow code, and with a null destination
  \<open>checked_memcpy\<close> raises the null-pointer violation; none of them copies.
\<close>

theorem copy_all_inputs_counterexample:
  "(2 :: 64 word) \<le> 4
   \<and> checked_memcpy_robust [1, 2, 3, 4, 9, 9, 9, 9] (Addr 4) (4 :: 64 word) (Addr 0) 1 2
       = Abort (BufferOverflow ''checked_memcpy_robust'') [1, 2, 3, 4, 9, 9, 9, 9]
   \<and> try_checked_memcpy_robust [1, 2, 3, 4, 9, 9, 9, 9] (Addr 4) (4 :: 64 word) (Addr 0) 1 2
       = Return 34 [1, 2, 3, 4, 9, 9, 9, 9]
   \<and> checked_memcpy [1, 2, 3, 4, 9, 9, 9, 9] Null (4 :: 64 word) (Addr 0) 2
       = Abort (NullPointer ''checked_memcpy'') [1, 2, 3, 4, 9, 9, 9, 9]"
  by (simp add: checked_memcpy_robust_def try_checked_memcpy_robust_def checked_memcpy_def
      buffer_overflow_error_def null_pointer_error_def ERR_POTENTIAL_BUFFER_OVERFLOW_def)

section \<open>Copy at an offset\<close>

text \<open>A destination of capacity 4 at address 0, an offset of 3 and a count of 4: both
  checks pass, and the copy reaches the addresses 4, 5 and 6.\<close>

lemma offset_copy_example:
  "checked_memcpy_offset [0, 0, 0, 0, 7, 7, 7, 7, 1, 2, 3, 4] (Addr 0) (4 :: 64 word) 3 (Addr 8) 4
     = Return (Addr 0) [0, 0, 0, 1, 2, 3, 4, 7, 1, 2, 3, 4]"
  by (simp add: checked_memcpy_offset_def memcpy_def)

text \<open>
  C3. \<open>checked_memcpy_offset\<close> accepts inputs with \<open>count\<close> at most the capacity,
  \<open>offset\<close> below it and \<open>offset + count\<close> above it: the validation does not bound
  \<open>offset + count\<close>. For every such input (the written range and the source reachable
  and not overlapping) the copy is performed: the destination address is returned, the
  memory keeps its length, the \<open>count\<close> bytes from \<open>destination + offset\<close> on are the
  source's bytes, every position from the capacity up to \<open>offset + count\<close> holds a source
  byte, and the bytes outside the written range are unchanged. Such inputs exist, and
  among them one for which a byte at or beyond the capacity is changed.
\<close>

theorem offset_copy_past_capacity:
  fixes destination_size offset count :: "'w::len word"
  shows "(count \<le> destination_size \<and> offset < destination_size
            \<and> unat destination_size < unat offset + unat count
            \<and> a + unat offset + unat count \<le> length m \<and> b + unat count \<le> length m
            \<and> (a + unat offset + unat count \<le> b \<or> b + unat count \<le> a + unat offset) \<longrightarrow>
          (\<exists>m'. checked_memcpy_offset m (Addr a) destination_size offset (Addr b) count
                  = Return (Addr a) m'
             \<and> m' = take (a + unat offset) m @ take (unat count) (drop b m)
                        @ drop (a + unat offset + unat count) m
             \<and> length m' = length m
             \<and> (\<forall>j. j < unat count \<longrightarrow> m' ! (a + unat offset + j) = m ! (b + j))
             \<and> (\<forall>i. a + unat destination_size \<le> i \<and> i < a + unat offset + unat count \<longrightarrow>
                    m' ! i = m ! (b + (i - (a + unat offset))))
             \<and> (\<forall>i. i < length m \<and> (i < a + unat offset \<or> a + unat offset + unat count \<le> i) \<longrightarrow>
                    m' ! i = m ! i)))
       \<and> (\<exists>m0 a0 (capacity :: 64 word) offset0 b0 count0 m1 i.
              count0 \<le> capacity \<and> offset0 < capacity
            \<and> unat capacity < unat offset0 + unat count0
            \<and> checked_memcpy_offset m0 (Addr a0) capacity offset0 (Addr b0) count0 = Return (Addr a0) m1
            \<and> length m1 = length m0
            \<and> a0 + unat capacity \<le> i \<and> i < a0 + unat offset0 + unat count0 \<and> i < length m1
            \<and> m1 ! i = m0 ! (b0 + (i - (a0 + unat offset0)))
            \<and> m1 ! i \<noteq> m0 ! i)"
proof (intro conjI impI)
  assume h: "count \<le> destination_size \<and> offset < destination_size
            \<and> unat destination_size < unat offset + unat count
            \<and> a + unat offset + unat count \<le> length m \<and> b + unat count \<le> length m
            \<and> (a + unat offset + unat count \<le> b \<or> b + unat count \<le> a + unat offset)"
  let ?p = "a + unat offset" and ?n = "unat count"
  let ?ys = "take ?n (drop b m)"
  let ?m' = "take ?p m @ ?ys @ drop (?p + ?n) m"
  from h have inb: "?p + ?n \<le> length m" and src: "b + ?n \<le> length m"
    and sep: "?p + ?n \<le> b \<or> b + ?n \<le> ?p"
    by simp_all
  have len: "length ?ys = ?n" using src by simp
  have cp: "memcpy m (Addr ?p) (Addr b) ?n = Some (Addr ?p, ?m')"
    using inb src sep by (rule memcpy_Some)
  have ok: "\<not> (destination_size < count \<or> destination_size \<le> offset)"
    using h by (simp add: not_less [symmetric])
  have 1: "checked_memcpy_offset m (Addr a) destination_size offset (Addr b) count = Return (Addr a) ?m'"
    using ok cp by (simp add: checked_memcpy_offset_def)
  have 2: "length ?m' = length m"
    using inb len by (rule splice_length)
  have 3: "?m' ! (?p + j) = m ! (b + j)" if "j < ?n" for j
  proof -
    have "?m' ! (?p + j) = ?ys ! j" using inb len that by (rule splice_inside)
    also have "\<dots> = m ! (b + j)" using that src by simp
    finally show ?thesis .
  qed
  have 4: "?m' ! i = m ! (b + (i - ?p))" if "a + unat destination_size \<le> i \<and> i < ?p + ?n" for i
  proof -
    from h have "unat offset < unat destination_size" by (simp add: word_less_nat_alt)
    with that have "?p \<le> i" and "i - ?p < ?n" by linarith+
    with 3 [of "i - ?p"] show ?thesis by simp
  qed
  have 5: "?m' ! i = m ! i" if "i < length m \<and> (i < ?p \<or> ?p + ?n \<le> i)" for i
    using inb len that [THEN conjunct1] that [THEN conjunct2] by (rule splice_outside)
  show "\<exists>m'. checked_memcpy_offset m (Addr a) destination_size offset (Addr b) count
                  = Return (Addr a) m'
             \<and> m' = take (a + unat offset) m @ take (unat count) (drop b m)
                        @ drop (a + unat offset + unat count) m
             \<and> length m' = length m
             \<and> (\<forall>j. j < unat count \<longrightarrow> m' ! (a + unat offset + j) = m ! (b + j))
             \<and> (\<forall>i. a + unat destination_size \<le> i \<and> i < a + unat offset + unat count \<longrightarrow>
                    m' ! i = m ! (b + (i - (a + unat offset))))
             \<and> (\<forall>i. i < length m \<and> (i < a + unat offset \<or> a + unat offset + unat count \<le> i) \<longrightarrow>
                    m' ! i = m ! i)"
    using 1 2 3 4 5 by blast
next
  let ?m = "[0, 0, 0, 0, 7, 7, 7, 7, 1, 2, 3, 4] :: mem"
  let ?m' = "[0, 0, 0, 1, 2, 3, 4, 7, 1, 2, 3, 4] :: mem"
  have "(4 :: 64 word) \<le> 4 \<and> (3 :: 64 word) < 4
    \<and> unat (4 :: 64 word) < unat (3 :: 64 word) + unat (4 :: 64 word)
    \<and> checked_memcpy_offset ?m (Addr 0) (4 :: 64 word) 3 (Addr 8) 4 = Return (Addr 0) ?m'
    \<and> length ?m' = length ?m
    \<and> 0 + unat (4 :: 64 word) \<le> 4 \<and> 4 < 0 + unat (3 :: 64 word) + unat (4 :: 64 word)
    \<and> 4 < length ?m'
    \<and> ?m' ! 4 = ?m ! (8 + (4 - (0 + unat (3 :: 64 word))))
    \<and> ?m' ! 4 \<noteq> ?m ! 4"
    using offset_copy_example by simp
  then show "\<exists>m0 a0 (capacity :: 64 word) offset0 b0 count0 m1 i.
              count0 \<le> capacity \<and> offset0 < capacity
            \<and> unat capacity < unat offset0 + unat count0
            \<and> checked_memcpy_offset m0 (Addr a0) capacity offset0 (Addr b0) count0 = Return (Addr a0) m1
            \<and> length m1 = length m0
            \<and> a0 + unat capacity \<le> i \<and> i < a0 + unat offset0 + unat count0 \<and> i < length m1
            \<and> m1 ! i = m0 ! (b0 + (i - (a0 + unat offset0)))
            \<and> m1 ! i \<noteq> m0 ! i"
    by blast
qed

theorem offset_copy_past_capacity_witness:
  "(4 :: 64 word) \<le> 4 \<and> (3 :: 64 word) < 4
   \<and> unat (4 :: 64 word) < unat (3 :: 64 word) + unat (4 :: 64 word)
   \<and> (\<exists>m'. checked_memcpy_offset [0, 0, 0, 0, 7, 7, 7, 7, 1, 2, 3, 4] (Addr 0) (4 :: 64 word) 3 (Addr 8) 4
            = Return (Addr 0) m'
        \<and> m' = [0, 0, 0, 1, 2, 3, 4, 7, 1, 2, 3, 4]
        \<and> m' ! 4 = 2 \<and> m' ! 5 = 3 \<and> m' ! 6 = 4)"
proof -
  let ?m = "[0, 0, 0, 0, 7, 7, 7, 7, 1, 2, 3, 4] :: mem"
  have h: "(4 :: 64 word) \<le> 4 \<and> (3 :: 64 word) < 4
      \<and> unat (4 :: 64 word) < unat (3 :: 64 word) + unat (4 :: 64 word)
      \<and> 0 + unat (3 :: 64 word) + unat (4 :: 64 word) \<le> length ?m \<and> 8 + unat (4 :: 64 word) \<le> length ?m
      \<and> (0 + unat (3 :: 64 word) + unat (4 :: 64 word) \<le> 8 \<or> 8 + unat (4 :: 64 word) \<le> 0 + unat (3 :: 64 word))"
    by simp
  from offset_copy_past_capacity [where 'w = 64, THEN conjunct1, rule_format, OF h] obtain m' where
    r: "checked_memcpy_offset ?m (Addr 0) (4 :: 64 word) 3 (Addr 8) 4 = Return (Addr 0) m'"
      and e: "m' = take (0 + unat (3 :: 64 word)) ?m @ take (unat (4 :: 64 word)) (drop 8 ?m)
                     @ drop (0 + unat (3 :: 64 word) + unat (4 :: 64 word)) ?m"
    by blast
  from e have "m' = [0, 0, 0, 1, 2, 3, 4, 7, 1, 2, 3, 4]"
    by simp
  with r h show ?thesis by simp
qed

text \<open>
  C4. \<open>checked_memcpy_offset\<close> ends in a violation exactly when \<open>count\<close> exceeds the
  capacity or \<open>offset\<close> is at least the capacity. The violation is the size-annotated
  overflow, and the available size it reports is \<open>destination_size - offset\<close> in
  \<^verbatim>\<open>size_t\<close> arithmetic: the difference modulo \<open>2 ^ w\<close>. No input leads to the
  null-pointer violation: a null pointer that passes the size checks goes to
  \<^verbatim>\<open>memcpy\<close> as it is, where \<open>checked_memcpy\<close> ends in the null-pointer violation.
\<close>

theorem offset_copy_violation:
  fixes destination_size offset count :: "'w::len word"
  shows "((\<exists>v m'. checked_memcpy_offset m destination destination_size offset source count = Abort v m')
            \<longleftrightarrow> (destination_size < count \<or> destination_size \<le> offset))
       \<and> (destination_size < count \<or> destination_size \<le> offset \<longrightarrow>
            (\<exists>available.
               checked_memcpy_offset m destination destination_size offset source count
                 = Abort (buffer_overflow_error_with_size ''checked_memcpy_offset'' available count) m
             \<and> available = destination_size - offset
             \<and> int (unat available)
                 = (int (unat destination_size) - int (unat offset)) mod 2 ^ LENGTH('w)))
       \<and> (\<forall>api m'. checked_memcpy_offset m destination destination_size offset source count
                     \<noteq> Abort (null_pointer_error api) m')
       \<and> (\<not> (destination_size < count \<or> destination_size \<le> offset)
            \<and> (destination = Null \<or> source = Null) \<longrightarrow>
            checked_memcpy_offset m destination destination_size offset source count = Undefined)
       \<and> (\<not> destination_size < count \<and> (destination = Null \<or> source = Null) \<longrightarrow>
            checked_memcpy m destination destination_size source count
              = Abort (null_pointer_error ''checked_memcpy'') m)"
proof -
  let ?r = "checked_memcpy_offset m destination destination_size offset source count"
  let ?bad = "destination_size < count \<or> destination_size \<le> offset"
  have abort: "?r = Abort (buffer_overflow_error_with_size ''checked_memcpy_offset''
                     (destination_size - offset) count) m" if ?bad
    using that by (simp add: checked_memcpy_offset_def)
  have no_abort: "?r \<noteq> Abort v m'" if "\<not> ?bad" for v m'
    using that by (simp add: checked_memcpy_offset_def split: option.splits prod.splits)
  have 1: "(\<exists>v m'. ?r = Abort v m') \<longleftrightarrow> ?bad"
    using abort no_abort by blast
  have wrap: "int (unat (destination_size - offset))
      = (int (unat destination_size) - int (unat offset)) mod 2 ^ LENGTH('w)"
    by (simp add: uint_word_ariths)
  have 2: "\<exists>available. ?r = Abort (buffer_overflow_error_with_size ''checked_memcpy_offset'' available count) m
      \<and> available = destination_size - offset
      \<and> int (unat available) = (int (unat destination_size) - int (unat offset)) mod 2 ^ LENGTH('w)"
    if ?bad
    using abort [OF that] wrap by blast
  have 3: "?r \<noteq> Abort (null_pointer_error api) m'" for api m'
    by (simp add: checked_memcpy_offset_def null_pointer_error_def
        buffer_overflow_error_with_size_def split: option.splits prod.splits)
  have 4: "?r = Undefined" if "\<not> ?bad" "destination = Null \<or> source = Null"
    using that by (auto simp add: checked_memcpy_offset_def memcpy_def split: ptr.splits)
  have 5: "checked_memcpy m destination destination_size source count
      = Abort (null_pointer_error ''checked_memcpy'') m"
    if "\<not> destination_size < count" "destination = Null \<or> source = Null"
    using that by (auto simp add: checked_memcpy_def)
  show ?thesis
    using 1 2 3 4 5 by blast
qed

theorem offset_copy_violation_witness:
  "(4 :: 64 word) \<le> 10
   \<and> checked_memcpy_offset [0, 0, 0, 0, 1] (Addr 0) (4 :: 64 word) 10 (Addr 4) 1
       = Abort (BufferOverflowWithSize ''checked_memcpy_offset'' 18446744073709551610 1) [0, 0, 0, 0, 1]
   \<and> \<not> (4 :: 64 word) \<le> 2
   \<and> checked_memcpy_offset [0, 0, 0, 0, 1] Null (4 :: 64 word) 2 (Addr 4) 1 = Undefined
   \<and> checked_memcpy [0, 0, 0, 0, 1] Null (4 :: 64 word) (Addr 4) 1
       = Abort (NullPointer ''checked_memcpy'') [0, 0, 0, 0, 1]"
  using offset_copy_violation [of "[0, 0, 0, 0, 1]" "Addr 0" "4 :: 64 word" 10 "Addr 4" 1]
    offset_copy_violation [of "[0, 0, 0, 0, 1]" Null "4 :: 64 word" 2 "Addr 4" 1]
  by (simp add: buffer_overflow_error_with_size_def null_pointer_error_def)

section \<open>Fill\<close>

lemma memset_Some:
  "a + n \<le> length m \<Longrightarrow>
     memset m (Addr a) ch n = Some (Addr a, take a m @ replicate n (word_of_int ch) @ drop (a + n) m)"
  by (simp add: memset_def)

text \<open>
  C9. With \<open>count\<close> at most the destination's capacity (and \<open>count\<close> bytes reachable
  at the destination), \<open>checked_memset\<close> returns the destination address, each of the
  first \<open>count\<close> bytes is the fill value modulo 256 -- its low 8 bits -- and the other
  bytes are unchanged. With \<open>count\<close> above the capacity it ends in the overflow
  violation with the memory as it was.
\<close>

theorem fill_checked:
  fixes destination_size count :: "'w::len word"
  shows "(count \<le> destination_size \<and> a + unat count \<le> length m \<longrightarrow>
            (\<exists>m'. checked_memset m (Addr a) destination_size ch count = Return (Addr a) m'
               \<and> length m' = length m
               \<and> (\<forall>i. i < unat count \<longrightarrow> uint (m' ! (a + i)) = ch mod 256)
               \<and> (\<forall>i. i < length m \<and> (i < a \<or> a + unat count \<le> i) \<longrightarrow> m' ! i = m ! i)))
       \<and> (destination_size < count \<longrightarrow>
            checked_memset m destination destination_size ch count
              = Abort (buffer_overflow_error ''checked_memset'') m)"
proof -
  let ?n = "unat count"
  let ?ys = "replicate ?n (word_of_int ch :: byte)"
  let ?m' = "take a m @ ?ys @ drop (a + ?n) m"
  have len: "length ?ys = ?n" by simp
  have ok: "\<exists>m'. checked_memset m (Addr a) destination_size ch count = Return (Addr a) m'
               \<and> length m' = length m
               \<and> (\<forall>i. i < unat count \<longrightarrow> uint (m' ! (a + i)) = ch mod 256)
               \<and> (\<forall>i. i < length m \<and> (i < a \<or> a + unat count \<le> i) \<longrightarrow> m' ! i = m ! i)"
    if c: "count \<le> destination_size" and r: "a + ?n \<le> length m"
  proof -
    have 1: "checked_memset m (Addr a) destination_size ch count = Return (Addr a) ?m'"
      using c by (simp add: checked_memset_def memset_Some [OF r] not_less [symmetric])
    have 2: "length ?m' = length m"
      using r len by (rule splice_length)
    have 3: "uint (?m' ! (a + i)) = ch mod 256" if "i < ?n" for i
    proof -
      have "?m' ! (a + i) = ?ys ! i" using r len that by (rule splice_inside)
      also have "\<dots> = word_of_int ch" using that by simp
      finally show ?thesis by (simp add: uint_word_of_int)
    qed
    have 4: "?m' ! i = m ! i" if "i < length m" "i < a \<or> a + ?n \<le> i" for i
      using r len that by (rule splice_outside)
    show ?thesis using 1 2 3 4 by blast
  qed
  have bad: "checked_memset m destination destination_size ch count
              = Abort (buffer_overflow_error ''checked_memset'') m"
    if "destination_size < count"
    using that by (simp add: checked_memset_def)
  show ?thesis using ok bad by blast
qed

theorem fill_checked_witness:
  "(2 :: 64 word) \<le> 3 \<and> 1 + unat (2 :: 64 word) \<le> length [5, 5, 5, 5 :: byte]
   \<and> checked_memset [5, 5, 5, 5] (Addr 1) (3 :: 64 word) 511 2 = Return (Addr 1) [5, 255, 255, 5]
   \<and> (3 :: 64 word) < 4
   \<and> checked_memset [5, 5, 5, 5] (Addr 1) (3 :: 64 word) 511 4
        = Abort (BufferOverflow ''checked_memset'') [5, 5, 5, 5]"
proof -
  let ?m = "[5, 5, 5, 5] :: mem"
  have h: "(2 :: 64 word) \<le> 3 \<and> 1 + unat (2 :: 64 word) \<le> length ?m" by simp
  with fill_checked [of 2 "3 :: 64 word" 1 ?m 511 "Addr 1"] obtain m' where
    r: "checked_memset ?m (Addr 1) (3 :: 64 word) 511 2 = Return (Addr 1) m'"
    by blast
  have rep: "replicate 2 x = [x, x]" for x :: byte
    by (simp add: numeral_2_eq_2)
  from r have "m' = [5, 511, 511, 5]"
    by (auto simp add: checked_memset_def memset_def rep)
  then have "m' = [5, 255, 255, 5]"
    by simp
  moreover have "(3 :: 64 word) < 4" by simp
  moreover from this fill_checked [of 4 "3 :: 64 word" 1 ?m 511 "Addr 1"]
  have "checked_memset ?m (Addr 1) (3 :: 64 word) 511 4 = Abort (BufferOverflow ''checked_memset'') ?m"
    by (simp add: buffer_overflow_error_def)
  ultimately show ?thesis using h r by simp
qed

section \<open>Error codes\<close>

text \<open>
  C10. The codes of the try family are fixed and pairwise distinct: success is \<open>0\<close>,
  \<open>ERR_POTENTIAL_BUFFER_OVERFLOW\<close> is \<open>34\<close> and \<open>ERR_POTENTIAL_INTEGER_OVERFLOW\<close> is
  \<open>75\<close>. Whatever a try function returns is one of them, and no try function ends in a
  violation handler.
\<close>

theorem try_error_codes:
  fixes destination_size count src_size :: "'w::len word"
  shows "ERR_POTENTIAL_BUFFER_OVERFLOW = 34 \<and> ERR_POTENTIAL_INTEGER_OVERFLOW = 75
       \<and> ERR_POTENTIAL_BUFFER_OVERFLOW \<noteq> 0 \<and> ERR_POTENTIAL_INTEGER_OVERFLOW \<noteq> 0
       \<and> ERR_POTENTIAL_BUFFER_OVERFLOW \<noteq> ERR_POTENTIAL_INTEGER_OVERFLOW
       \<and> (\<forall>r m'. try_checked_memcpy m destination destination_size source count = Return r m' \<longrightarrow>
             r = 0 \<or> r = ERR_POTENTIAL_BUFFER_OVERFLOW)
       \<and> (\<forall>r m'. try_checked_memcpy_robust m destination destination_size source src_size count
                    = Return r m' \<longrightarrow>
             r = 0 \<or> r = ERR_POTENTIAL_BUFFER_OVERFLOW)
       \<and> (\<forall>r m'. try_checked_strcat m destination destination_size source = Return r m' \<longrightarrow>
             r = 0 \<or> r = ERR_POTENTIAL_BUFFER_OVERFLOW \<or> r = ERR_POTENTIAL_INTEGER_OVERFLOW)
       \<and> (\<forall>v m'. try_checked_memcpy m destination destination_size source count \<noteq> Abort v m'
                 \<and> try_checked_memcpy_robust m destination destination_size source src_size count
                      \<noteq> Abort v m'
                 \<and> try_checked_strcat m destination destination_size source \<noteq> Abort v m')"
proof -
  let ?codes = "\<lambda>r. r = 0 \<or> r = ERR_POTENTIAL_BUFFER_OVERFLOW \<or> r = ERR_POTENTIAL_INTEGER_OVERFLOW"
  have a: "case try_checked_memcpy m destination destination_size source count of
             Return r m' \<Rightarrow> r = 0 \<or> r = ERR_POTENTIAL_BUFFER_OVERFLOW
           | Abort v m' \<Rightarrow> False | Undefined \<Rightarrow> True"
    by (simp add: try_checked_memcpy_def split: option.split)
  have b: "case try_checked_memcpy_robust m destination destination_size source src_size count of
             Return r m' \<Rightarrow> r = 0 \<or> r = ERR_POTENTIAL_BUFFER_OVERFLOW
           | Abort v m' \<Rightarrow> False | Undefined \<Rightarrow> True"
    by (simp add: try_checked_memcpy_robust_def split: option.split)
  have c: "case try_checked_strcat m destination destination_size source of
             Return r m' \<Rightarrow> ?codes r
           | Abort v m' \<Rightarrow> False | Undefined \<Rightarrow> True"
    by (simp add: try_checked_strcat_def split: option.split)
  have 1: "r = 0 \<or> r = ERR_POTENTIAL_BUFFER_OVERFLOW"
    if "try_checked_memcpy m destination destination_size source count = Return r m'" for r m'
    using a that by simp
  have 2: "r = 0 \<or> r = ERR_POTENTIAL_BUFFER_OVERFLOW"
    if "try_checked_memcpy_robust m destination destination_size source src_size count = Return r m'"
    for r m'
    using b that by simp
  have 3: "?codes r"
    if "try_checked_strcat m destination destination_size source = Return r m'" for r m'
    using c that by simp
  have 4: "try_checked_memcpy m destination destination_size source count \<noteq> Abort v m'" for v m'
    using a by auto
  have 5: "try_checked_memcpy_robust m destination destination_size source src_size count \<noteq> Abort v m'"
    for v m'
    using b by auto
  have 6: "try_checked_strcat m destination destination_size source \<noteq> Abort v m'" for v m'
    using c by auto
  have 0: "ERR_POTENTIAL_BUFFER_OVERFLOW = 34 \<and> ERR_POTENTIAL_INTEGER_OVERFLOW = 75
       \<and> ERR_POTENTIAL_BUFFER_OVERFLOW \<noteq> 0 \<and> ERR_POTENTIAL_INTEGER_OVERFLOW \<noteq> 0
       \<and> ERR_POTENTIAL_BUFFER_OVERFLOW \<noteq> ERR_POTENTIAL_INTEGER_OVERFLOW"
    by (simp add: ERR_POTENTIAL_BUFFER_OVERFLOW_def ERR_POTENTIAL_INTEGER_OVERFLOW_def)
  from 0 show ?thesis
    by (auto simp add: 4 5 6 dest: 1 2 3)
qed

theorem try_error_codes_witness:
  "try_checked_memcpy [1, 2, 3, 4] (Addr 0) (2 :: 64 word) (Addr 2) 2 = Return 0 [3, 4, 3, 4]
   \<and> try_checked_memcpy_robust [1, 2, 3, 4] (Addr 0) (2 :: 64 word) (Addr 2) 1 2 = Return 34 [1, 2, 3, 4]
   \<and> try_checked_strcat [1, 0, 3, 0] (Addr 0) (2 :: 64 word) (Addr 2) = Return 34 [1, 0, 3, 0]
   \<and> (0 :: int) \<noteq> 34 \<and> (0 :: int) \<noteq> 75 \<and> (34 :: int) \<noteq> 75"
  using try_error_codes [of "[1, 2, 3, 4]" "Addr 0" "2 :: 64 word" "Addr 2" 2 1]
    try_error_codes [of "[1, 0, 3, 0]" "Addr 0" "2 :: 64 word" "Addr 2" 2 1]
  by (simp add: try_checked_memcpy_def try_checked_memcpy_robust_def try_checked_strcat_def
      memcpy_def strlen_def)

section \<open>Compare\<close>

text \<open>The sign of the model's \<^verbatim>\<open>memcmp\<close> is the order of the first pair of bytes that
  differ, and \<^verbatim>\<open>strncmp\<close> is \<^verbatim>\<open>memcmp\<close> on the bytes up to the first operand's
  terminator.\<close>

lemma byte_diff_sign:
  fixes x y :: byte
  shows "(uint x = uint y) = (x = y)"
    and "(uint x < uint y) = (x < y)"
  by (simp_all add: word_less_def word_uint_eq_iff)

lemma memcmp_bytes_eq_0:
  "length xs = length ys \<Longrightarrow> (memcmp_bytes xs ys = 0) = (xs = ys)"
  by (induction xs ys rule: list_induct2) (simp_all add: byte_diff_sign)

lemma memcmp_bytes_first:
  "length xs = length ys \<Longrightarrow> i < length xs \<Longrightarrow> take i xs = take i ys \<Longrightarrow> xs ! i \<noteq> ys ! i \<Longrightarrow>
     memcmp_bytes xs ys = int (unat (xs ! i)) - int (unat (ys ! i))"
proof (induction xs ys arbitrary: i rule: list_induct2)
  case Nil
  then show ?case by simp
next
  case (Cons x xs y ys)
  show ?case
  proof (cases i)
    case 0
    with Cons.prems show ?thesis by simp
  next
    case (Suc j)
    with Cons.prems have "x = y" "j < length xs" "take j xs = take j ys" "xs ! j \<noteq> ys ! j"
      by simp_all
    with Cons.IH [of j] Suc show ?thesis by simp
  qed
qed

lemma memcmp_bytes_ordered:
  assumes "length xs = length ys"
  shows "(memcmp_bytes xs ys = 0) = (xs = ys)
       \<and> (\<forall>i. i < length xs \<and> take i xs = take i ys \<and> xs ! i \<noteq> ys ! i \<longrightarrow>
              (memcmp_bytes xs ys < 0) = (xs ! i < ys ! i)
            \<and> (0 < memcmp_bytes xs ys) = (ys ! i < xs ! i))"
  using assms by (auto simp add: memcmp_bytes_eq_0 memcmp_bytes_first byte_diff_sign)

lemma upto_nul_prefix: "upto_nul xs = take (length (upto_nul xs)) xs"
  by (induction xs) auto

lemma strncmp_bytes_memcmp:
  "n \<le> length xs \<Longrightarrow> n \<le> length ys \<Longrightarrow>
     strncmp_bytes xs ys n
       = Some (memcmp_bytes (take n (upto_nul xs)) (take (min n (length (upto_nul xs))) ys))"
  by (induction xs ys n rule: strncmp_bytes.induct) (simp_all add: min_def)

lemma strncmp_bytes_Cons:
  "0 < n \<Longrightarrow>
     strncmp_bytes (x # xs) (y # ys) n
       = (if x \<noteq> y then Some (int (unat x) - int (unat y))
          else if x = 0 then Some 0
          else strncmp_bytes xs ys (n - 1))"
  by (cases n) simp_all

lemma strncmp_bytes_take:
  assumes "n \<le> length xs" "n \<le> length ys"
  shows "strncmp_bytes xs ys n
       = Some (memcmp_bytes (take (min n (length (upto_nul xs))) xs)
                            (take (min n (length (upto_nul xs))) ys))"
proof -
  have "take n (upto_nul xs) = take n (take (length (upto_nul xs)) xs)"
    using upto_nul_prefix [of xs] by simp
  then have "take n (upto_nul xs) = take (min n (length (upto_nul xs))) xs"
    by simp
  with strncmp_bytes_memcmp [OF assms] show ?thesis by simp
qed

text \<open>
  C8. With the requested length within both declared capacities (and that many bytes
  reachable through both pointers), \<open>checked_memcmp\<close> and \<open>checked_strncmp\<close> return a
  result that is \<open>0\<close> exactly when the compared bytes are identical, and otherwise is
  negative when, at the first position where they differ, the byte of operand 1 is the
  smaller one as an unsigned value, and positive when it is the greater one. The compared
  bytes are the first \<open>num\<close> bytes for \<open>checked_memcmp\<close>; for \<open>checked_strncmp\<close> they
  end with the first operand's terminator if that comes earlier. A request for more
  bytes than either declared capacity ends in the out-of-bounds-read violation with
  nothing compared.
\<close>

theorem compare_checked:
  fixes ptr1_size ptr2_size num :: "'w::len word"
  shows "(num \<le> ptr1_size \<and> num \<le> ptr2_size
            \<and> a + unat num \<le> length m \<and> b + unat num \<le> length m \<longrightarrow>
          (\<exists>r xs ys.
              checked_memcmp m (Addr a) ptr1_size (Addr b) ptr2_size num = Return r m
            \<and> xs = take (unat num) (drop a m) \<and> ys = take (unat num) (drop b m)
            \<and> (r = 0) = (xs = ys)
            \<and> (\<forall>i. i < length xs \<and> take i xs = take i ys \<and> xs ! i \<noteq> ys ! i \<longrightarrow>
                   (r < 0) = (xs ! i < ys ! i) \<and> (0 < r) = (ys ! i < xs ! i)))
        \<and> (\<exists>r k xs ys.
              checked_strncmp m (Addr a) ptr1_size (Addr b) ptr2_size num = Return r m
            \<and> k = min (unat num) (length (upto_nul (drop a m)))
            \<and> xs = take k (drop a m) \<and> ys = take k (drop b m)
            \<and> (r = 0) = (xs = ys)
            \<and> (\<forall>i. i < length xs \<and> take i xs = take i ys \<and> xs ! i \<noteq> ys ! i \<longrightarrow>
                   (r < 0) = (xs ! i < ys ! i) \<and> (0 < r) = (ys ! i < xs ! i))))
       \<and> (ptr1_size < num \<or> ptr2_size < num \<longrightarrow>
            checked_memcmp m ptr1 ptr1_size ptr2 ptr2_size num
              = Abort (buffer_oob_read_error ''checked_memcmp'') m
          \<and> checked_strncmp m ptr1 ptr1_size ptr2 ptr2_size num
              = Abort (buffer_oob_read_error ''checked_strncmp'') m)"
proof (intro conjI impI)
  assume "ptr1_size < num \<or> ptr2_size < num"
  then show "checked_memcmp m ptr1 ptr1_size ptr2 ptr2_size num
      = Abort (buffer_oob_read_error ''checked_memcmp'') m"
    and "checked_strncmp m ptr1 ptr1_size ptr2 ptr2_size num
      = Abort (buffer_oob_read_error ''checked_strncmp'') m"
    by (simp_all add: checked_memcmp_def checked_strncmp_def)
next
  assume h: "num \<le> ptr1_size \<and> num \<le> ptr2_size
    \<and> a + unat num \<le> length m \<and> b + unat num \<le> length m"
  let ?n = "unat num"
  from h have ok: "\<not> (ptr1_size < num \<or> ptr2_size < num)"
    by (simp add: not_less)
  from h have la: "?n \<le> length (drop a m)" and lb: "?n \<le> length (drop b m)"
    by auto
  show "\<exists>r xs ys.
              checked_memcmp m (Addr a) ptr1_size (Addr b) ptr2_size num = Return r m
            \<and> xs = take (unat num) (drop a m) \<and> ys = take (unat num) (drop b m)
            \<and> (r = 0) = (xs = ys)
            \<and> (\<forall>i. i < length xs \<and> take i xs = take i ys \<and> xs ! i \<noteq> ys ! i \<longrightarrow>
                   (r < 0) = (xs ! i < ys ! i) \<and> (0 < r) = (ys ! i < xs ! i))"
  proof -
    let ?xs = "take ?n (drop a m)" and ?ys = "take ?n (drop b m)"
    have "length ?xs = length ?ys" using la lb by simp
    note memcmp_bytes_ordered [OF this]
    moreover have "checked_memcmp m (Addr a) ptr1_size (Addr b) ptr2_size num
        = Return (memcmp_bytes ?xs ?ys) m"
      using h ok by (simp add: checked_memcmp_def memcmp_def)
    ultimately show ?thesis by blast
  qed
  show "\<exists>r k xs ys.
              checked_strncmp m (Addr a) ptr1_size (Addr b) ptr2_size num = Return r m
            \<and> k = min (unat num) (length (upto_nul (drop a m)))
            \<and> xs = take k (drop a m) \<and> ys = take k (drop b m)
            \<and> (r = 0) = (xs = ys)
            \<and> (\<forall>i. i < length xs \<and> take i xs = take i ys \<and> xs ! i \<noteq> ys ! i \<longrightarrow>
                   (r < 0) = (xs ! i < ys ! i) \<and> (0 < r) = (ys ! i < xs ! i))"
  proof -
    let ?k = "min ?n (length (upto_nul (drop a m)))"
    let ?xs = "take ?k (drop a m)" and ?ys = "take ?k (drop b m)"
    have "length ?xs = length ?ys" using la lb by simp
    note memcmp_bytes_ordered [OF this]
    moreover have "checked_strncmp m (Addr a) ptr1_size (Addr b) ptr2_size num
        = Return (memcmp_bytes ?xs ?ys) m"
      using ok ok [unfolded not_less] by (simp add: checked_strncmp_def strncmp_def strncmp_bytes_take [OF la lb])
    ultimately show ?thesis by blast
  qed
qed

theorem compare_checked_witness:
  "checked_memcmp [1, 2, 3, 1, 2, 200] (Addr 0) (3 :: 64 word) (Addr 3) 3 3 = Return (- 197) [1, 2, 3, 1, 2, 200]
   \<and> checked_strncmp [97, 0, 5, 97, 0, 9] (Addr 0) (3 :: 64 word) (Addr 3) 3 3 = Return 0 [97, 0, 5, 97, 0, 9]
   \<and> checked_memcmp [97, 0, 5, 97, 0, 9] (Addr 0) (3 :: 64 word) (Addr 3) 3 3 = Return (- 4) [97, 0, 5, 97, 0, 9]
   \<and> checked_memcmp [1, 2, 3, 1, 2, 200] (Addr 0) (2 :: 64 word) (Addr 3) 3 3
        = Abort (BufferOobRead ''checked_memcmp'') [1, 2, 3, 1, 2, 200]
   \<and> checked_strncmp [1, 2, 3, 1, 2, 200] (Addr 0) (3 :: 64 word) (Addr 3) 2 3
        = Abort (BufferOobRead ''checked_strncmp'') [1, 2, 3, 1, 2, 200]"
  using compare_checked [of 3 "3 :: 64 word" 3 0 "[1, 2, 3, 1, 2, 200]" 3 "Addr 0" "Addr 3"]
    compare_checked [of 3 "3 :: 64 word" 3 0 "[97, 0, 5, 97, 0, 9]" 3 "Addr 0" "Addr 3"]
    compare_checked [of 3 "2 :: 64 word" 3 0 "[1, 2, 3, 1, 2, 200]" 3 "Addr 0" "Addr 3"]
    compare_checked [of 3 "3 :: 64 word" 2 0 "[1, 2, 3, 1, 2, 200]" 3 "Addr 0" "Addr 3"]
  by (simp add: checked_memcmp_def checked_strncmp_def memcmp_def strncmp_def buffer_oob_read_error_def
      strncmp_bytes_Cons)

section \<open>Concatenate\<close>

text \<open>What \<^verbatim>\<open>strlen\<close> says about the memory, and the memory after the append.\<close>

lemma find_nul_SomeD:
  "find_nul bs = Some n \<Longrightarrow> n < length bs \<and> bs ! n = 0 \<and> 0 \<notin> set (take n bs)"
proof (induction bs arbitrary: n)
  case Nil
  then show ?case by simp
next
  case (Cons b bs)
  show ?case
  proof (cases "b = 0")
    case True
    with Cons.prems show ?thesis by simp
  next
    case False
    with Cons.prems obtain k where k: "find_nul bs = Some k" "n = Suc k"
      by auto
    with Cons.IH [of k] False show ?thesis by simp
  qed
qed

lemma find_nul_append:
  "0 \<notin> set xs \<Longrightarrow> find_nul (xs @ 0 # r) = Some (length xs)"
  by (induction xs) auto

lemma strlenD:
  fixes l :: "'w::len word"
  assumes "strlen m (Addr a) = Some l"
  shows "a + unat l < length m" and "m ! (a + unat l) = 0" and "0 \<notin> set (take (unat l) (drop a m))"
proof -
  from assms obtain n where n: "find_nul (drop a m) = Some n" "n < 2 ^ LENGTH('w)" "l = of_nat n"
    by (auto simp add: strlen_def split: option.splits if_splits)
  then have u: "unat l = n"
    by (simp add: of_nat_inverse)
  from find_nul_SomeD [OF n(1)] u
  show "a + unat l < length m" and "m ! (a + unat l) = 0" and "0 \<notin> set (take (unat l) (drop a m))"
    by auto
qed

lemma strlen_append:
  assumes "0 \<notin> set xs" and "length xs < 2 ^ LENGTH('w::len)" and "length pre = a"
  shows "strlen (pre @ xs @ 0 # r) (Addr a) = Some (of_nat (length xs) :: 'w word)"
  using assms by (simp add: strlen_def find_nul_append)

lemma splice_terminate:
  assumes "a + k < length m" and "length ys = k"
  shows "(take a m @ ys @ drop (a + k) m)[a + k := z] = take a m @ ys @ z # drop (a + k + 1) m"
proof -
  have "drop (a + k) m = m ! (a + k) # drop (a + k + 1) m"
    using assms(1) by (simp add: Cons_nth_drop_Suc)
  then show ?thesis
    using assms by (simp add: list_update_append)
qed


lemma take_terminated:
  "length xs = n \<Longrightarrow> length ys = k \<Longrightarrow> take (n + k + 1) (xs @ ys @ z # r) = xs @ ys @ [z]"
  by simp

lemma append_at_Some:
  fixes dest_str_len src_str_len :: "'w::len word"
  assumes "a + unat dest_str_len + unat src_str_len < length m"
    and "b + unat src_str_len \<le> length m"
    and "a + unat dest_str_len + unat src_str_len \<le> b \<or> b + unat src_str_len \<le> a + unat dest_str_len"
  shows "append_at m (Addr a) dest_str_len (Addr b) src_str_len
       = Some (take (a + unat dest_str_len) m @ take (unat src_str_len) (drop b m)
                 @ 0 # drop (a + unat dest_str_len + unat src_str_len + 1) m)"
proof -
  let ?p = "a + unat dest_str_len" and ?k = "unat src_str_len"
  let ?ys = "take ?k (drop b m)"
  let ?m1 = "take ?p m @ ?ys @ drop (?p + ?k) m"
  have len: "length ?ys = ?k" using assms(2) by simp
  have "?p + ?k \<le> length m" using assms(1) by simp
  then have cp: "memcpy m (Addr ?p) (Addr b) ?k = Some (Addr ?p, ?m1)"
    using assms(2,3) by (rule memcpy_Some)
  have "length ?m1 = length m"
    using \<open>?p + ?k \<le> length m\<close> len by (rule splice_length)
  then have st: "store_byte ?m1 (Addr (?p + ?k)) 0 = Some (?m1[?p + ?k := 0])"
    using assms(1) by (simp add: store_byte_def)
  have "?m1[?p + ?k := 0] = take ?p m @ ?ys @ 0 # drop (?p + ?k + 1) m"
    using assms(1) len by (rule splice_terminate)
  with cp st show ?thesis
    by (simp add: append_at_def)
qed

text \<open>
  C5. For both concatenate variants, given null-terminated destination and source
  strings with \<open>strlen(dest) + strlen(src) \<le> destination_size - 1\<close> and a capacity above
  zero (the capacity reachable at the destination, and the source not overlapping the
  appended range), the destination afterwards holds its old content, then the source's
  content, then one terminator -- its length is the sum of the two lengths -- and the
  bytes elsewhere are unchanged; \<open>checked_strcat\<close> returns the destination address and
  \<open>try_checked_strcat\<close> returns \<open>0\<close>.
\<close>

theorem concatenate_fits:
  fixes destination_size dest_str_len src_str_len :: "'w::len word"
  assumes dl: "strlen m (Addr a) = Some dest_str_len"
    and sl: "strlen m (Addr b) = Some src_str_len"
    and nz: "0 < destination_size"
    and fit: "unat dest_str_len + unat src_str_len \<le> unat destination_size - 1"
    and cap: "a + unat destination_size \<le> length m"
    and sep: "a + unat dest_str_len + unat src_str_len \<le> b
              \<or> b + unat src_str_len \<le> a + unat dest_str_len"
  shows "\<exists>m'. checked_strcat m (Addr a) destination_size (Addr b) = Return (Addr a) m'
          \<and> try_checked_strcat m (Addr a) destination_size (Addr b) = Return 0 m'
          \<and> length m' = length m
          \<and> take (unat dest_str_len + unat src_str_len + 1) (drop a m')
                = take (unat dest_str_len) (drop a m) @ take (unat src_str_len) (drop b m) @ [0]
          \<and> strlen m' (Addr a) = Some (dest_str_len + src_str_len)
          \<and> (\<forall>i. i < length m
                   \<and> (i < a + unat dest_str_len \<or> a + unat dest_str_len + unat src_str_len < i) \<longrightarrow>
                 m' ! i = m ! i)"
proof -
  let ?n = "unat dest_str_len" and ?k = "unat src_str_len"
  let ?xs = "take ?n (drop a m)" and ?ys = "take ?k (drop b m)"
  let ?rest = "drop (a + ?n + ?k + 1) m"
  let ?m' = "take (a + ?n) m @ ?ys @ 0 # ?rest"
  note d = strlenD [OF dl] and s = strlenD [OF sl]
  have nz': "destination_size \<noteq> 0" and pos: "0 < unat destination_size"
    using nz by (auto simp add: word_less_nat_alt)
  have "unat destination_size < 2 ^ LENGTH('w)" by simp
  with fit pos have small: "?n + ?k < 2 ^ LENGTH('w)" by linarith
  then have sum: "unat (dest_str_len + src_str_len) = ?n + ?k"
    by (simp add: unat_add_lem)
  have c1: "\<not> dest_str_len + src_str_len < dest_str_len"
    by (simp add: word_less_nat_alt sum)
  have c2: "\<not> destination_size - 1 < dest_str_len + src_str_len"
    using fit by (simp add: word_less_nat_alt sum unat_minus_one [OF nz'])
  have inb: "a + ?n + ?k < length m"
    using fit pos cap by linarith
  have lx: "length ?xs = ?n" and ly: "length ?ys = ?k"
    using d(1) s(1) by simp_all
  have ap: "append_at m (Addr a) dest_str_len (Addr b) src_str_len = Some ?m'"
    using inb _ sep by (rule append_at_Some) (use s(1) in simp)
  have 1: "checked_strcat m (Addr a) destination_size (Addr b) = Return (Addr a) ?m'"
    using c1 c2 by (simp add: checked_strcat_def dl sl nz' ap)
  have 2: "try_checked_strcat m (Addr a) destination_size (Addr b) = Return 0 ?m'"
    using c1 c2 by (simp add: try_checked_strcat_def dl sl nz' ap)
  have 3: "length ?m' = length m"
    using inb ly by simp
  have split: "take (a + ?n) m = take a m @ ?xs"
    by (simp add: take_add)
  have la: "length (take a m) = a"
    using inb by simp
  have dr: "drop a ?m' = ?xs @ ?ys @ 0 # ?rest"
    using la by (simp add: split)
  have "take (?n + ?k + 1) (?xs @ ?ys @ 0 # ?rest) = ?xs @ ?ys @ [0]"
    using lx ly by (rule take_terminated)
  then have 4: "take (?n + ?k + 1) (drop a ?m') = ?xs @ ?ys @ [0]"
    by (simp only: dr)
  have "0 \<notin> set (?xs @ ?ys)"
    using d(3) s(3) by simp
  moreover have "length (?xs @ ?ys) < 2 ^ LENGTH('w)"
    using small lx ly by simp
  ultimately have "strlen (take a m @ (?xs @ ?ys) @ 0 # ?rest) (Addr a)
      = Some (of_nat (length (?xs @ ?ys)) :: 'w word)"
    using la by (rule strlen_append)
  moreover have "(of_nat (length (?xs @ ?ys)) :: 'w word) = dest_str_len + src_str_len"
    using lx ly by simp
  ultimately have 5: "strlen ?m' (Addr a) = Some (dest_str_len + src_str_len)"
    by (simp add: split)
  have 6: "?m' ! i = m ! i"
    if "i < length m" "i < a + ?n \<or> a + ?n + ?k < i" for i
  proof -
    have eq: "?m' = take (a + ?n) m @ (?ys @ [0]) @ drop (a + ?n + (?k + 1)) m"
      by (simp add: add.assoc)
    have "a + ?n + (?k + 1) \<le> length m" using inb by simp
    moreover have "length (?ys @ [0]) = ?k + 1" using ly by simp
    moreover note that(1)
    moreover have "i < a + ?n \<or> a + ?n + (?k + 1) \<le> i" using that(2) by linarith
    ultimately have "(take (a + ?n) m @ (?ys @ [0]) @ drop (a + ?n + (?k + 1)) m) ! i = m ! i"
      by (rule splice_outside)
    with eq show ?thesis by simp
  qed
  show ?thesis
    using 1 2 3 4 5 6 by blast
qed


theorem concatenate_fits_witness:
  "strlen [102, 111, 111, 0, 9, 9, 9, 9, 98, 97, 114, 0] (Addr 0) = Some (3 :: 64 word)
   \<and> strlen [102, 111, 111, 0, 9, 9, 9, 9, 98, 97, 114, 0] (Addr 8) = Some (3 :: 64 word)
   \<and> (\<exists>m'. checked_strcat [102, 111, 111, 0, 9, 9, 9, 9, 98, 97, 114, 0] (Addr 0) (8 :: 64 word) (Addr 8)
            = Return (Addr 0) m'
        \<and> try_checked_strcat [102, 111, 111, 0, 9, 9, 9, 9, 98, 97, 114, 0] (Addr 0) (8 :: 64 word) (Addr 8)
            = Return 0 m'
        \<and> m' = [102, 111, 111, 98, 97, 114, 0, 9, 98, 97, 114, 0]
        \<and> strlen m' (Addr 0) = Some (6 :: 64 word))"
proof -
  let ?m = "[102, 111, 111, 0, 9, 9, 9, 9, 98, 97, 114, 0] :: mem"
  have dl: "strlen ?m (Addr 0) = Some (3 :: 64 word)"
    by (simp add: strlen_def)
  have sl: "strlen ?m (Addr 8) = Some (3 :: 64 word)"
    by (simp add: strlen_def)
  have nz: "0 < (8 :: 64 word)" by simp
  have fit: "unat (3 :: 64 word) + unat (3 :: 64 word) \<le> unat (8 :: 64 word) - 1" by simp
  have cap: "0 + unat (8 :: 64 word) \<le> length ?m" by simp
  have sep: "0 + unat (3 :: 64 word) + unat (3 :: 64 word) \<le> 8
             \<or> 8 + unat (3 :: 64 word) \<le> 0 + unat (3 :: 64 word)" by simp
  from concatenate_fits [OF dl sl nz fit cap sep] obtain m' where
    r: "checked_strcat ?m (Addr 0) (8 :: 64 word) (Addr 8) = Return (Addr 0) m'"
       "try_checked_strcat ?m (Addr 0) (8 :: 64 word) (Addr 8) = Return 0 m'"
       "take (unat (3 :: 64 word) + unat (3 :: 64 word) + 1) (drop 0 m')
          = take (unat (3 :: 64 word)) (drop 0 ?m) @ take (unat (3 :: 64 word)) (drop 8 ?m) @ [0]"
       "length m' = length ?m"
       "strlen m' (Addr 0) = Some (3 + 3 :: 64 word)"
       "\<forall>i. i < length ?m
           \<and> (i < 0 + unat (3 :: 64 word) \<or> 0 + unat (3 :: 64 word) + unat (3 :: 64 word) < i) \<longrightarrow>
           m' ! i = ?m ! i"
    by blast
  from r(2) have "m' = [102, 111, 111, 98, 97, 114, 0, 9, 98, 97, 114, 0]"
    by (simp add: try_checked_strcat_def dl sl append_at_def memcpy_def store_byte_def)
  with r dl sl show ?thesis by simp
qed

text \<open>Unsigned addition wraps exactly when the sum is below an operand; a string of
  \<open>n\<close> non-zero bytes has length \<open>n\<close>.\<close>

lemma strlen_replicate:
  assumes "x \<noteq> 0" and "n < 2 ^ LENGTH('w::len)"
  shows "strlen (replicate n x @ [0]) (Addr 0) = Some (of_nat n :: 'w word)"
proof -
  have "0 \<notin> set (replicate n x)" using assms(1) by auto
  then have "strlen ([] @ replicate n x @ 0 # []) (Addr 0) = Some (of_nat (length (replicate n x)) :: 'w word)"
    by (rule strlen_append) (use assms(2) in simp_all)
  then show ?thesis by simp
qed

lemma add_wraps:
  fixes x y :: "'w::len word"
  shows "(x + y < x) = (2 ^ LENGTH('w) \<le> unat x + unat y)"
    and "(x + y < y) = (2 ^ LENGTH('w) \<le> unat x + unat y)"
proof -
  show 1: "(x + y < x) = (2 ^ LENGTH('w) \<le> unat x + unat y)" for x y :: "'w word"
    using no_plus_overflow_unat_size [of x y] by (simp add: word_size not_le [symmetric])
  from 1 [of y x] show "(x + y < y) = (2 ^ LENGTH('w) \<le> unat x + unat y)"
    by (simp add: add.commute)
qed

lemma long_string:
  "strlen (replicate (2 ^ 31 + 1) 1 @ [0]) (Addr 0) = Some (2 ^ 31 + 1 :: 32 word)"
proof -
  have "(1 :: byte) \<noteq> 0" by simp
  moreover have "(2 ^ 31 + 1 :: nat) < 2 ^ LENGTH(32)" by simp
  ultimately have "strlen (replicate (2 ^ 31 + 1) 1 @ [0]) (Addr 0) = Some (of_nat (2 ^ 31 + 1) :: 32 word)"
    by (rule strlen_replicate)
  then show ?thesis by simp
qed


text \<open>
  C6 (as amended). For both concatenate variants, given null-terminated strings, when
  the capacity is zero, or the two lengths add up without wrapping to at least the
  capacity, \<open>checked_strcat\<close> ends in the size-annotated overflow violation and
  \<open>try_checked_strcat\<close> returns the overflow code, the memory being as it was. With a
  capacity of zero \<open>try_checked_strcat\<close> returns the code without looking at the
  strings.
\<close>

theorem concatenate_overflow:
  fixes destination_size dest_str_len src_str_len :: "'w::len word"
  shows "(strlen m destination = Some dest_str_len \<and> strlen m source = Some src_str_len
          \<and> (destination_size = 0
               \<or> unat dest_str_len + unat src_str_len < 2 ^ LENGTH('w)
                 \<and> unat destination_size \<le> unat dest_str_len + unat src_str_len) \<longrightarrow>
            checked_strcat m destination destination_size source
              = Abort (buffer_overflow_error_with_size ''checked_strcat''
                         (if destination_size = 0 then 0 else destination_size - 1)
                         (dest_str_len + src_str_len)) m
          \<and> try_checked_strcat m destination destination_size source
              = Return ERR_POTENTIAL_BUFFER_OVERFLOW m)
       \<and> try_checked_strcat m destination (0 :: 'w word) source = Return ERR_POTENTIAL_BUFFER_OVERFLOW m"
proof (intro conjI impI)
  show "try_checked_strcat m destination (0 :: 'w word) source = Return ERR_POTENTIAL_BUFFER_OVERFLOW m"
    by (simp add: try_checked_strcat_def)
next
  assume h: "strlen m destination = Some dest_str_len \<and> strlen m source = Some src_str_len
          \<and> (destination_size = 0
               \<or> unat dest_str_len + unat src_str_len < 2 ^ LENGTH('w)
                 \<and> unat destination_size \<le> unat dest_str_len + unat src_str_len)"
  then have dl: "strlen m destination = Some dest_str_len" and sl: "strlen m source = Some src_str_len"
    by simp_all
  have c: "\<not> dest_str_len + src_str_len < dest_str_len
         \<and> destination_size - 1 < dest_str_len + src_str_len"
    if nz: "destination_size \<noteq> 0"
  proof -
    from h nz have small: "unat dest_str_len + unat src_str_len < 2 ^ LENGTH('w)"
      and big: "unat destination_size \<le> unat dest_str_len + unat src_str_len"
      by simp_all
    from small have "\<not> dest_str_len + src_str_len < dest_str_len"
      by (simp add: add_wraps)
    moreover from small have "unat (dest_str_len + src_str_len) = unat dest_str_len + unat src_str_len"
      by (simp add: unat_add_lem)
    moreover have "0 < unat destination_size"
      using nz by (simp add: unat_gt_0)
    ultimately show ?thesis
      using big by (simp add: word_less_nat_alt unat_minus_one [OF nz])
  qed
  show "checked_strcat m destination destination_size source
      = Abort (buffer_overflow_error_with_size ''checked_strcat''
                 (if destination_size = 0 then 0 else destination_size - 1)
                 (dest_str_len + src_str_len)) m"
    using c by (simp add: checked_strcat_def dl sl)
  show "try_checked_strcat m destination destination_size source = Return ERR_POTENTIAL_BUFFER_OVERFLOW m"
    using c by (simp add: try_checked_strcat_def dl sl)
qed

theorem concatenate_overflow_witness:
  "checked_strcat [102, 111, 111, 0, 98, 97, 114, 0] (Addr 0) (6 :: 64 word) (Addr 4)
     = Abort (BufferOverflowWithSize ''checked_strcat'' 5 6) [102, 111, 111, 0, 98, 97, 114, 0]
   \<and> try_checked_strcat [102, 111, 111, 0, 98, 97, 114, 0] (Addr 0) (6 :: 64 word) (Addr 4)
     = Return 34 [102, 111, 111, 0, 98, 97, 114, 0]
   \<and> checked_strcat [102, 111, 111, 0, 98, 97, 114, 0] (Addr 0) (0 :: 64 word) (Addr 4)
     = Abort (BufferOverflowWithSize ''checked_strcat'' 0 6) [102, 111, 111, 0, 98, 97, 114, 0]
   \<and> try_checked_strcat [102, 111, 111, 0, 98, 97, 114, 0] (Addr 0) (0 :: 64 word) (Addr 4)
     = Return 34 [102, 111, 111, 0, 98, 97, 114, 0]"
proof -
  let ?m = "[102, 111, 111, 0, 98, 97, 114, 0] :: mem"
  have dl: "strlen ?m (Addr 0) = Some (3 :: 64 word)"
    by (simp add: strlen_def)
  have sl: "strlen ?m (Addr 4) = Some (3 :: 64 word)"
    by (simp add: strlen_def)
  have h: "unat (3 :: 64 word) + unat (3 :: 64 word) < 2 ^ LENGTH(64)
      \<and> unat (6 :: 64 word) \<le> unat (3 :: 64 word) + unat (3 :: 64 word)"
    by simp
  from concatenate_overflow [of ?m "Addr 0" "3 :: 64 word" "Addr 4" 3 6]
    concatenate_overflow [of ?m "Addr 0" "3 :: 64 word" "Addr 4" 3 0] dl sl h
  show ?thesis
    by (simp add: buffer_overflow_error_with_size_def ERR_POTENTIAL_BUFFER_OVERFLOW_def)
qed

text \<open>
  C6 as stated covers every pair of lengths whose sum reaches the capacity. On a
  32-bit \<^verbatim>\<open>size_t\<close>, a string of \<open>2 ^ 31 + 1\<close> characters appended to itself has the sum
  \<open>2 ^ 32 + 2\<close>, computed as \<open>2\<close>; with a capacity of \<open>2\<close> both variants report the
  integer overflow, not the buffer overflow.
\<close>

theorem concatenate_overflow_counterexample:
  "strlen (replicate (2 ^ 31 + 1) 1 @ [0]) (Addr 0) = Some (2 ^ 31 + 1 :: 32 word)
   \<and> unat (2 :: 32 word) \<le> unat (2 ^ 31 + 1 :: 32 word) + unat (2 ^ 31 + 1 :: 32 word)
   \<and> (2 :: 32 word) \<le> (2 ^ 31 + 1) + (2 ^ 31 + 1)
   \<and> checked_strcat (replicate (2 ^ 31 + 1) 1 @ [0]) (Addr 0) (2 :: 32 word) (Addr 0)
       = Abort (IntegerOverflow ''checked_strcat'') (replicate (2 ^ 31 + 1) 1 @ [0])
   \<and> try_checked_strcat (replicate (2 ^ 31 + 1) 1 @ [0]) (Addr 0) (2 :: 32 word) (Addr 0)
       = Return 75 (replicate (2 ^ 31 + 1) 1 @ [0])"
  by (simp add: long_string [simplified] checked_strcat_def try_checked_strcat_def integer_overflow_error_def
      ERR_POTENTIAL_INTEGER_OVERFLOW_def)

text \<open>
  C7 (as amended). For both concatenate variants, given null-terminated strings and a
  capacity other than zero, when the addition of the two lengths wraps around, the
  computed sum is below both operands, \<open>checked_strcat\<close> ends in the integer-overflow
  violation and \<open>try_checked_strcat\<close> returns the integer-overflow code, the memory being
  as it was.
\<close>

theorem concatenate_integer_overflow:
  fixes destination_size dest_str_len src_str_len :: "'w::len word"
  assumes "strlen m destination = Some dest_str_len" and "strlen m source = Some src_str_len"
    and "destination_size \<noteq> 0"
    and "2 ^ LENGTH('w) \<le> unat dest_str_len + unat src_str_len"
  shows "dest_str_len + src_str_len < dest_str_len \<and> dest_str_len + src_str_len < src_str_len
       \<and> checked_strcat m destination destination_size source
           = Abort (integer_overflow_error ''checked_strcat'') m
       \<and> try_checked_strcat m destination destination_size source
           = Return ERR_POTENTIAL_INTEGER_OVERFLOW m"
proof -
  from assms(4) have w: "dest_str_len + src_str_len < dest_str_len"
    "dest_str_len + src_str_len < src_str_len"
    by (simp_all add: add_wraps)
  moreover have "checked_strcat m destination destination_size source
      = Abort (integer_overflow_error ''checked_strcat'') m"
    using assms(3) w(1) by (simp add: checked_strcat_def assms(1,2))
  moreover have "try_checked_strcat m destination destination_size source
      = Return ERR_POTENTIAL_INTEGER_OVERFLOW m"
    using assms(3) w(1) by (simp add: try_checked_strcat_def assms(1,2))
  ultimately show ?thesis by simp
qed

theorem concatenate_integer_overflow_witness:
  "strlen (replicate (2 ^ 31 + 1) 1 @ [0]) (Addr 0) = Some (2 ^ 31 + 1 :: 32 word)
   \<and> (2 ^ 31 + 1) + (2 ^ 31 + 1) < (2 ^ 31 + 1 :: 32 word)
   \<and> checked_strcat (replicate (2 ^ 31 + 1) 1 @ [0]) (Addr 0) (8 :: 32 word) (Addr 0)
       = Abort (IntegerOverflow ''checked_strcat'') (replicate (2 ^ 31 + 1) 1 @ [0])
   \<and> try_checked_strcat (replicate (2 ^ 31 + 1) 1 @ [0]) (Addr 0) (8 :: 32 word) (Addr 0)
       = Return 75 (replicate (2 ^ 31 + 1) 1 @ [0])"
proof -
  have nz: "(8 :: 32 word) \<noteq> 0" by simp
  have wrap: "2 ^ LENGTH(32) \<le> unat (2 ^ 31 + 1 :: 32 word) + unat (2 ^ 31 + 1 :: 32 word)"
    by simp
  from concatenate_integer_overflow [OF long_string long_string nz wrap] long_string
  show ?thesis
    by (simp add: integer_overflow_error_def ERR_POTENTIAL_INTEGER_OVERFLOW_def)
qed

text \<open>
  C7 as stated covers every capacity. With a capacity of zero the capacity check comes
  first in both variants: for the same string, whose doubled length wraps, they report
  the buffer overflow.
\<close>

theorem concatenate_integer_overflow_counterexample:
  "strlen (replicate (2 ^ 31 + 1) 1 @ [0]) (Addr 0) = Some (2 ^ 31 + 1 :: 32 word)
   \<and> (2 ^ 31 + 1) + (2 ^ 31 + 1) < (2 ^ 31 + 1 :: 32 word)
   \<and> checked_strcat (replicate (2 ^ 31 + 1) 1 @ [0]) (Addr 0) (0 :: 32 word) (Addr 0)
       = Abort (BufferOverflowWithSize ''checked_strcat'' 0 2) (replicate (2 ^ 31 + 1) 1 @ [0])
   \<and> try_checked_strcat (replicate (2 ^ 31 + 1) 1 @ [0]) (Addr 0) (0 :: 32 word) (Addr 0)
       = Return 34 (replicate (2 ^ 31 + 1) 1 @ [0])"
  by (simp add: long_string [simplified] checked_strcat_def try_checked_strcat_def
      buffer_overflow_error_with_size_def ERR_POTENTIAL_BUFFER_OVERFLOW_def)

end
